theory Spec2Isabelle
  imports Main "HOL-Library.Word"
begin

section \<open>CRLF to LF conversion towards the object database (src/crlf.c)\<close>

subsection \<open>Data\<close>

text \<open>
  A C \<open>char\<close> is a byte. The two bytes the filter looks for are the carriage
  return (13) and the line feed (10).
\<close>

type_synonym byte = "8 word"

abbreviation CR :: byte where "CR \<equiv> 13"
abbreviation LF :: byte where "LF \<equiv> 10"

text \<open>
  The enumerators \<open>GIT_CRLF_*\<close> and \<open>GIT_EOL_*\<close> are declared in filter.h, outside
  src; crlf.c only compares them for equality, each field of \<open>struct crlf_attrs\<close>
  against the enumerators of its own group.
\<close>

datatype git_crlf_t =
  GIT_CRLF_GUESS | GIT_CRLF_BINARY | GIT_CRLF_TEXT | GIT_CRLF_INPUT | GIT_CRLF_CRLF | GIT_CRLF_AUTO

datatype git_eol_t = GIT_EOL_UNSET | GIT_EOL_CRLF | GIT_EOL_LF

record crlf_attrs =
  crlf_action :: git_crlf_t
  eol :: git_eol_t

record crlf_filter =
  attrs :: crlf_attrs

text \<open>
  An attribute value is a \<open>const char *\<close>: one of the two marker pointers
  \<open>git_attr__true\<close> and \<open>git_attr__false\<close> (compared by address), \<open>NULL\<close>, or a
  string.
\<close>

datatype attr_value = git_attr__true | git_attr__false | NULL | Str string

text \<open>
  Modelled from the spec: \<open>git_attr_get_many\<close> and the codes \<open>GIT_SUCCESS\<close> and
  \<open>GIT_ENOTFOUND\<close> are defined outside src. The spec (section 6) gives the lookup
  three outcomes: the values of the requested attributes, in the order of the
  names (\<open>crlf\<close>, \<open>eol\<close>, \<open>text\<close>); the distinguished "not found"; any other error
  code.
\<close>

datatype attr_lookup = GIT_SUCCESS "attr_value list" | GIT_ENOTFOUND | GIT_ERROR int

text \<open>
  A \<open>git_buf\<close> (buffer.h, outside src) as crlf.c uses it: \<open>ptr\<close> holds the \<open>size\<close>
  bytes \<open>ptr[0]\<close> .. \<open>ptr[size - 1]\<close>, and \<open>ptr_at_size\<close> is the byte the allocation
  holds at \<open>ptr[size]\<close>, one past the content, which \<open>drop_crlf\<close> can read.
\<close>

record git_buf =
  ptr :: "byte list"
  ptr_at_size :: byte

definition buf_size :: "git_buf \<Rightarrow> nat" where
  "buf_size b = length (ptr b)"

text \<open>\<open>b->ptr[i]\<close>, for \<open>i \<le> b->size\<close>.\<close>

definition ptr_at :: "git_buf \<Rightarrow> nat \<Rightarrow> byte" where
  "ptr_at b i = (if i < length (ptr b) then ptr b ! i else ptr_at_size b)"

text \<open>
  Modelled from the spec: \<open>git_buf_put\<close> and \<open>git_buf_putc\<close> are defined in buffer.c,
  outside src. The spec (section 4.4) has the transform append to the destination
  buffer, in order. \<open>drop_crlf\<close> ignores what they return, so a failed allocation
  (section 7) is not part of its result.
\<close>

definition git_buf_put :: "git_buf \<Rightarrow> byte list \<Rightarrow> git_buf" where
  "git_buf_put dest data = dest\<lparr>ptr := ptr dest @ data\<rparr>"

definition git_buf_putc :: "git_buf \<Rightarrow> byte \<Rightarrow> git_buf" where
  "git_buf_putc dest c = dest\<lparr>ptr := ptr dest @ [c]\<rparr>"

text \<open>
  Modelled from the spec: \<open>git_text_stats\<close>, \<open>git_text_gather_stats\<close> and
  \<open>git_text_is_binary\<close> are defined outside src. The spec (section 6) has the
  statistics hold the counts of CR and of CR LF pairs; the two functions are
  parameters of \<open>crlf_apply_to_odb\<close> below.
\<close>

record git_text_stats =
  cr :: nat
  crlf :: nat

subsection \<open>Policy: attributes to action (crlf.c, lines 26-103)\<close>

fun check_crlf :: "attr_value \<Rightarrow> git_crlf_t" where
  "check_crlf git_attr__true = GIT_CRLF_TEXT"
| "check_crlf git_attr__false = GIT_CRLF_BINARY"
| "check_crlf NULL = GIT_CRLF_GUESS"
| "check_crlf (Str v) =
     (if v = ''input'' then GIT_CRLF_INPUT
      else if v = ''auto'' then GIT_CRLF_AUTO
      else GIT_CRLF_GUESS)"

text \<open>
  \<open>check_eol\<close> compares with \<open>NULL\<close> and then by \<open>strcmp\<close> only; the strings behind
  the two marker pointers are neither \<open>lf\<close> nor \<open>crlf\<close>.
\<close>

fun check_eol :: "attr_value \<Rightarrow> git_eol_t" where
  "check_eol NULL = GIT_EOL_UNSET"
| "check_eol (Str v) =
     (if v = ''lf'' then GIT_EOL_LF
      else if v = ''crlf'' then GIT_EOL_CRLF
      else GIT_EOL_UNSET)"
| "check_eol _ = GIT_EOL_UNSET"

definition crlf_input_action :: "crlf_attrs \<Rightarrow> git_crlf_t" where
  "crlf_input_action ca =
     (if crlf_action ca = GIT_CRLF_BINARY then GIT_CRLF_BINARY
      else if eol ca = GIT_EOL_LF then GIT_CRLF_INPUT
      else if eol ca = GIT_EOL_CRLF then GIT_CRLF_CRLF
      else crlf_action ca)"

text \<open>
  \<open>crlf_load_attributes\<close> writes through \<open>ca\<close> and returns an error code: the model
  takes the outcome of \<open>git_attr_get_many\<close> and returns the code with the updated
  struct. \<open>attr_vals\<close> has the three entries \<open>crlf\<close>, \<open>eol\<close>, \<open>text\<close>.
\<close>

definition crlf_load_attributes :: "crlf_attrs \<Rightarrow> attr_lookup \<Rightarrow> int \<times> crlf_attrs" where
  "crlf_load_attributes ca lookup =
     (case lookup of
        GIT_ENOTFOUND \<Rightarrow> (0, ca\<lparr>crlf_action := GIT_CRLF_GUESS, eol := GIT_EOL_UNSET\<rparr>)
      | GIT_SUCCESS attr_vals \<Rightarrow>
          (let ca1 = ca\<lparr>crlf_action := check_crlf (attr_vals ! 2)\<rparr>;
               ca2 = (if crlf_action ca1 = GIT_CRLF_GUESS
                      then ca1\<lparr>crlf_action := check_crlf (attr_vals ! 0)\<rparr>
                      else ca1)
           in (0, ca2\<lparr>eol := check_eol (attr_vals ! 1)\<rparr>))
      | GIT_ERROR error \<Rightarrow> (error, ca))"

subsection \<open>The transform (crlf.c, lines 105-153)\<close>

text \<open>
  The loop of lines 112-113, which is also the inner loop of lines 130-131:
  while \<open>i < psize\<close> and \<open>source->ptr[i]\<close> is not CR, \<open>i++\<close>. It returns the final \<open>i\<close>.
\<close>

function scan_loop :: "git_buf \<Rightarrow> nat \<Rightarrow> nat \<Rightarrow> nat" where
  "scan_loop source psize i =
     (if i < psize \<and> ptr_at source i \<noteq> CR then scan_loop source psize (i + 1) else i)"
  by pat_completeness auto
termination
  by (relation "measure (\<lambda>(source, psize, i). psize - i)") auto

declare scan_loop.simps [simp del]

text \<open>
  The main loop of lines 127-148, from the current \<open>i\<close> and destination; it returns
  the destination. \<open>git_buf_put (dest, source->ptr + org, i - org)\<close> appends the
  \<open>i - org\<close> bytes from index \<open>org\<close>.
\<close>

function main_loop :: "git_buf \<Rightarrow> nat \<Rightarrow> git_buf \<Rightarrow> nat \<Rightarrow> git_buf" where
  "main_loop source psize dest i =
     (if i < psize then
        (let org = i;
             i1 = scan_loop source psize i;
             dest1 = (if i1 > org then git_buf_put dest (take (i1 - org) (drop org (ptr source)))
                      else dest);
             dest2 = (if ptr_at source (i1 + 1) \<noteq> LF then git_buf_putc dest1 CR else dest1)
         in main_loop source psize dest2 (i1 + 1))
      else dest)"
  by pat_completeness auto
termination
proof -
  have ge: "j \<le> scan_loop source psize j" for source psize j
    by (induction source psize j rule: scan_loop.induct)
       (subst scan_loop.simps, auto)
  have dec: "psize - Suc (scan_loop source psize i) < psize - i" if "i < psize"
    for source psize i
    using ge [of i source psize] that by arith
  show ?thesis
    by (relation "measure (\<lambda>(source, psize, dest, i). psize - i)") (simp_all add: dec)
qed

declare main_loop.simps [simp del]

text \<open>
  \<open>drop_crlf\<close> returns an \<open>int\<close> and writes through \<open>dest\<close>: the model returns both.
  Indices are \<open>size_t\<close>; with \<open>1 \<le> size\<close> they stay within \<open>0 .. size\<close> and nothing
  wraps. With \<open>size = 0\<close> the subtraction \<open>size - 1\<close> wraps to \<open>SIZE_MAX\<close> and the
  scans leave the allocation: that call has no defined result, which is \<open>None\<close>.
\<close>

definition drop_crlf :: "git_buf \<Rightarrow> git_buf \<Rightarrow> (int \<times> git_buf) option" where
  "drop_crlf dest source =
     (if buf_size source = 0 then None
      else
        (let psize = buf_size source - 1;
             i = scan_loop source psize 0
         in if i = psize then Some (- 1, dest)
            else Some (0, git_buf_putc (main_loop source psize dest i) (ptr_at source psize))))"

subsection \<open>Applicability (crlf.c, lines 155-205)\<close>

text \<open>
  \<open>self\<close> is the filter with its attributes; the assertion that the three pointers
  are not null holds of every value of the model.
\<close>

definition crlf_apply_to_odb ::
  "(git_buf \<Rightarrow> git_text_stats) \<Rightarrow> (git_text_stats \<Rightarrow> bool) \<Rightarrow>
   crlf_filter \<Rightarrow> git_buf \<Rightarrow> git_buf \<Rightarrow> (int \<times> git_buf) option" where
  "crlf_apply_to_odb git_text_gather_stats git_text_is_binary self dest source =
     (if buf_size source = 0 then Some (0, dest)
      else if crlf_action (attrs self) = GIT_CRLF_AUTO \<or>
              crlf_action (attrs self) = GIT_CRLF_GUESS then
        (let stats = git_text_gather_stats source
         in if cr stats \<noteq> crlf stats then Some (- 1, dest)
            else if git_text_is_binary stats then Some (- 1, dest)
            else if cr stats = 0 then Some (- 1, dest)
            else drop_crlf dest source)
      else drop_crlf dest source)"

subsection \<open>The specification's words, as definitions\<close>

text \<open>
  From the spec's words (sections 4.4 and 8), not from crlf.c: the input with exactly
  those CR bytes removed that are immediately followed by LF and occur before the
  last byte; every other byte is kept, in order.
\<close>

fun strip_crlf_spec :: "byte list \<Rightarrow> byte list" where
  "strip_crlf_spec (a # b # bs) =
     (if a = CR \<and> b = LF then strip_crlf_spec (b # bs) else a # strip_crlf_spec (b # bs))"
| "strip_crlf_spec bs = bs"

text \<open>
  From the spec's words (section 4.3), not from crlf.c: the condition under which
  \<open>apply\<close> is said to perform the transform on a non-empty source.
\<close>

definition apply_condition_spec :: "git_crlf_t \<Rightarrow> git_text_stats \<Rightarrow> bool \<Rightarrow> bool" where
  "apply_condition_spec action stats is_binary \<longleftrightarrow>
     action = GIT_CRLF_TEXT \<or> action = GIT_CRLF_INPUT \<or> action = GIT_CRLF_CRLF \<or>
     (action = GIT_CRLF_AUTO \<or> action = GIT_CRLF_GUESS) \<and>
       cr stats = crlf stats \<and> \<not> is_binary \<and> cr stats > 0"

section \<open>Properties of the loops\<close>

text \<open>Unfolding the transform on a concrete buffer.\<close>

lemmas drop_crlf_eval =
  drop_crlf_def buf_size_def ptr_at_def scan_loop.simps main_loop.simps
  git_buf_putc_def git_buf_put_def Let_def

text \<open>The scan stops at the first CR at or after \<open>i\<close> and before \<open>psize\<close>, else at \<open>psize\<close>.\<close>

lemma scan_loop_ge: "i \<le> scan_loop source psize i"
  by (induction source psize i rule: scan_loop.induct) (subst scan_loop.simps, auto)

lemma scan_loop_le: "i \<le> psize \<Longrightarrow> scan_loop source psize i \<le> psize"
  by (induction source psize i rule: scan_loop.induct) (subst scan_loop.simps, auto)

lemma scan_loop_cr:
  "scan_loop source psize i < psize \<Longrightarrow> ptr_at source (scan_loop source psize i) = CR"
proof (induction source psize i rule: scan_loop.induct)
  case (1 source psize i)
  show ?case
  proof (cases "i < psize \<and> ptr_at source i \<noteq> CR")
    case True
    then have eq: "scan_loop source psize i = scan_loop source psize (i + 1)"
      by (subst scan_loop.simps) simp
    with 1 True show ?thesis by simp
  next
    case False
    then have eq: "scan_loop source psize i = i"
      by (subst scan_loop.simps) auto
    show ?thesis
      using "1.prems" False unfolding eq by auto
  qed
qed

lemma scan_loop_first:
  "i \<le> k \<Longrightarrow> k < psize \<Longrightarrow> ptr_at source k = CR \<Longrightarrow>
   \<forall>j. i \<le> j \<and> j < k \<longrightarrow> ptr_at source j \<noteq> CR \<Longrightarrow> scan_loop source psize i = k"
proof (induction source psize i rule: scan_loop.induct)
  case (1 source psize i)
  show ?case
  proof (cases "i = k")
    case True
    with 1 show ?thesis by (subst scan_loop.simps) simp
  next
    case False
    with 1 have lt: "i < k" and ne: "ptr_at source i \<noteq> CR" by auto
    then have "scan_loop source psize i = scan_loop source psize (i + 1)"
      using 1 by (subst scan_loop.simps) simp
    also have "\<dots> = k"
      using 1 lt ne by auto
    finally show ?thesis .
  qed
qed

lemma scan_loop_none:
  "i \<le> psize \<Longrightarrow> \<forall>j. i \<le> j \<and> j < psize \<longrightarrow> ptr_at source j \<noteq> CR \<Longrightarrow>
   scan_loop source psize i = psize"
proof (induction source psize i rule: scan_loop.induct)
  case (1 source psize i)
  show ?case
  proof (cases "i = psize")
    case True
    then show ?thesis by (subst scan_loop.simps) simp
  next
    case False
    with 1 have lt: "i < psize" and ne: "ptr_at source i \<noteq> CR" by auto
    then have "scan_loop source psize i = scan_loop source psize (i + 1)"
      by (subst scan_loop.simps) simp
    also have "\<dots> = psize"
      using 1 lt ne by auto
    finally show ?thesis .
  qed
qed

text \<open>The main loop only appends to the destination.\<close>

lemma main_loop_appends:
  "\<exists>out. main_loop source psize dest i = dest\<lparr>ptr := ptr dest @ out\<rparr>"
proof (induction source psize dest i rule: main_loop.induct)
  case (1 source psize dest i)
  show ?case
  proof (cases "i < psize")
    case False
    then have "main_loop source psize dest i = dest"
      by (subst main_loop.simps) simp
    then have "main_loop source psize dest i = dest\<lparr>ptr := ptr dest @ []\<rparr>"
      by simp
    then show ?thesis by blast
  next
    case True
    define i1 where "i1 = scan_loop source psize i"
    define dest1 where "dest1 =
      (if i1 > i then git_buf_put dest (take (i1 - i) (drop i (ptr source))) else dest)"
    define dest2 where "dest2 =
      (if ptr_at source (i1 + 1) \<noteq> LF then git_buf_putc dest1 CR else dest1)"
    have step: "main_loop source psize dest i = main_loop source psize dest2 (i1 + 1)"
      using True by (subst main_loop.simps) (simp add: Let_def i1_def dest1_def dest2_def)
    obtain out where out: "main_loop source psize dest2 (i1 + 1) = dest2\<lparr>ptr := ptr dest2 @ out\<rparr>"
      using "1.IH" [OF True refl i1_def dest1_def dest2_def] by blast
    define out2 where "out2 =
      (if i1 > i then take (i1 - i) (drop i (ptr source)) else []) @
      (if ptr_at source (i1 + 1) \<noteq> LF then [CR] else [])"
    have out2: "dest2 = dest\<lparr>ptr := ptr dest @ out2\<rparr>"
      by (simp add: out2_def dest2_def dest1_def git_buf_put_def git_buf_putc_def)
    have "main_loop source psize dest i = dest\<lparr>ptr := ptr dest @ (out2 @ out)\<rparr>"
      unfolding step out by (subst (1 2) out2) simp
    then show ?thesis by blast
  qed
qed

text \<open>
  Where the inner scan runs to \<open>psize\<close> without a CR, the lookahead of line 143 reads
  \<open>ptr[size]\<close>; unless that byte is LF, a CR that the source does not have is
  appended before the last byte.
\<close>

lemma drop_crlf_lookahead_past_end:
  "drop_crlf \<lparr>ptr = [], ptr_at_size = 0\<rparr> \<lparr>ptr = [CR, 65, 66], ptr_at_size = 0\<rparr>
   = Some (0, \<lparr>ptr = [CR, 65, CR, 66], ptr_at_size = 0\<rparr>)"
  by (simp add: drop_crlf_eval)

text \<open>Dropping the first k bytes of the source shifts every index by k.\<close>

lemma ptr_at_drop:
  "k \<le> length (ptr source) \<Longrightarrow>
   ptr_at (source\<lparr>ptr := drop k (ptr source)\<rparr>) j = ptr_at source (j + k)"
  by (auto simp: ptr_at_def add.commute)

lemma scan_loop_drop:
  "k \<le> length (ptr source) \<Longrightarrow>
   scan_loop (source\<lparr>ptr := drop k (ptr source)\<rparr>) psize j + k = scan_loop source (psize + k) (j + k)"
proof (induction "source\<lparr>ptr := drop k (ptr source)\<rparr>" psize j rule: scan_loop.induct)
  case (1 psize j)
  let ?s = "source\<lparr>ptr := drop k (ptr source)\<rparr>"
  have at: "ptr_at ?s j = ptr_at source (j + k)"
    using "1.prems" by (rule ptr_at_drop)
  show ?case
  proof (cases "j < psize \<and> ptr_at ?s j \<noteq> CR")
    case True
    then have "scan_loop ?s psize j = scan_loop ?s psize (j + 1)"
      by (subst scan_loop.simps) simp
    moreover have "scan_loop source (psize + k) (j + k) = scan_loop source (psize + k) (j + 1 + k)"
      using True at by (subst scan_loop.simps) simp
    ultimately show ?thesis
      using "1.hyps" [OF True "1.prems"] by simp
  next
    case False
    then have "scan_loop ?s psize j = j"
      by (subst scan_loop.simps) auto
    moreover have "scan_loop source (psize + k) (j + k) = j + k"
      using False at by (subst scan_loop.simps) auto
    ultimately show ?thesis by simp
  qed
qed

lemma main_loop_drop:
  "k \<le> length (ptr source) \<Longrightarrow>
   main_loop (source\<lparr>ptr := drop k (ptr source)\<rparr>) psize dest j
     = main_loop source (psize + k) dest (j + k)"
proof (induction "source\<lparr>ptr := drop k (ptr source)\<rparr>" psize dest j rule: main_loop.induct)
  case (1 psize dest j)
  let ?s = "source\<lparr>ptr := drop k (ptr source)\<rparr>"
  show ?case
  proof (cases "j < psize")
    case False
    then have "main_loop ?s psize dest j = dest"
      by (subst main_loop.simps) simp
    moreover have "main_loop source (psize + k) dest (j + k) = dest"
      using False by (subst main_loop.simps) simp
    ultimately show ?thesis by simp
  next
    case True
    define i1 where "i1 = scan_loop ?s psize j"
    define dest1 where "dest1 =
      (if i1 > j then git_buf_put dest (take (i1 - j) (drop j (ptr ?s))) else dest)"
    define dest2 where "dest2 =
      (if ptr_at ?s (i1 + 1) \<noteq> LF then git_buf_putc dest1 CR else dest1)"
    have left: "main_loop ?s psize dest j = main_loop ?s psize dest2 (i1 + 1)"
      using True by (subst main_loop.simps) (simp add: Let_def i1_def dest1_def dest2_def)
    have scan: "scan_loop source (psize + k) (j + k) = i1 + k"
      using scan_loop_drop [OF "1.prems", of psize j] by (simp add: i1_def)
    have look: "ptr_at ?s (i1 + 1) = ptr_at source (i1 + k + 1)"
      using ptr_at_drop [OF "1.prems", of "i1 + 1"] by (simp add: add.commute add.left_commute)
    have d1: "dest1 =
      (if i1 + k > j + k
       then git_buf_put dest (take (i1 + k - (j + k)) (drop (j + k) (ptr source))) else dest)"
      by (simp add: dest1_def add.commute)
    have d2: "dest2 = (if ptr_at source (i1 + k + 1) \<noteq> LF then git_buf_putc dest1 CR else dest1)"
      by (simp only: dest2_def look)
    have lt: "j + k < psize + k"
      using True by simp
    have right: "main_loop source (psize + k) dest (j + k)
        = main_loop source (psize + k) dest2 (i1 + k + 1)"
      by (subst main_loop.simps) (simp only: lt if_True Let_def scan flip: d1 d2)
    have "main_loop ?s psize dest2 (i1 + 1) = main_loop source (psize + k) dest2 (i1 + 1 + k)"
      using "1.hyps" [OF True refl i1_def dest1_def dest2_def "1.prems"] .
    then show ?thesis
      unfolding left right by (simp add: add.commute add.left_commute)
  qed
qed

text \<open>Up to where the scan stops there is no CR.\<close>

lemma scan_loop_skips:
  "i \<le> j \<Longrightarrow> j < scan_loop source psize i \<Longrightarrow> ptr_at source j \<noteq> CR"
proof (induction source psize i rule: scan_loop.induct)
  case (1 source psize i)
  show ?case
  proof (cases "i < psize \<and> ptr_at source i \<noteq> CR")
    case True
    then have eq: "scan_loop source psize i = scan_loop source psize (i + 1)"
      by (subst scan_loop.simps) simp
    show ?thesis
    proof (cases "j = i")
      case True
      with \<open>i < psize \<and> ptr_at source i \<noteq> CR\<close> show ?thesis by simp
    next
      case False
      with "1.prems" have "i + 1 \<le> j" by simp
      moreover have "j < scan_loop source psize (i + 1)"
        using "1.prems"(2) eq by simp
      ultimately show ?thesis
        using "1.IH" [OF True] by simp
    qed
  next
    case False
    then have "scan_loop source psize i = i"
      by (subst scan_loop.simps) auto
    with "1.prems" show ?thesis by simp
  qed
qed

lemma scan_loop_before_cr:
  "i \<le> c \<Longrightarrow> ptr_at source c = CR \<Longrightarrow> scan_loop source psize i \<le> c"
  using scan_loop_skips [of i c source psize] by (auto simp: not_less [symmetric])

lemma chunk_no_cr:
  assumes "i1 \<le> length (ptr source)"
    and "\<forall>j. i \<le> j \<and> j < i1 \<longrightarrow> ptr_at source j \<noteq> CR"
  shows "CR \<notin> set (take (i1 - i) (drop i (ptr source)))"
proof
  assume "CR \<in> set (take (i1 - i) (drop i (ptr source)))"
  then obtain n where n: "n < length (take (i1 - i) (drop i (ptr source)))"
    and at: "take (i1 - i) (drop i (ptr source)) ! n = CR"
    by (auto simp: in_set_conv_nth)
  from n have lt: "n < i1 - i" by simp
  then have "i + n < length (ptr source)"
    using assms(1) by simp
  moreover from at lt have "ptr source ! (i + n) = CR"
    using assms(1) by simp
  ultimately have "ptr_at source (i + n) = CR"
    by (simp add: ptr_at_def)
  moreover have "ptr_at source (i + n) \<noteq> CR"
    using assms(2) lt by simp
  ultimately show False by simp
qed

lemma main_loop_no_cr:
  "\<forall>j. j < psize \<and> ptr_at source j = CR \<longrightarrow> ptr_at source (j + 1) = LF \<Longrightarrow>
   0 < psize \<Longrightarrow> ptr_at source (psize - 1) = CR \<Longrightarrow> psize \<le> length (ptr source) \<Longrightarrow>
   CR \<notin> set (ptr dest) \<Longrightarrow> CR \<notin> set (ptr (main_loop source psize dest i))"
proof (induction source psize dest i rule: main_loop.induct)
  case (1 source psize dest i)
  show ?case
  proof (cases "i < psize")
    case False
    then have "main_loop source psize dest i = dest"
      by (subst main_loop.simps) simp
    with "1.prems" show ?thesis by simp
  next
    case True
    define i1 where "i1 = scan_loop source psize i"
    define dest1 where "dest1 =
      (if i1 > i then git_buf_put dest (take (i1 - i) (drop i (ptr source))) else dest)"
    define dest2 where "dest2 =
      (if ptr_at source (i1 + 1) \<noteq> LF then git_buf_putc dest1 CR else dest1)"
    have step: "main_loop source psize dest i = main_loop source psize dest2 (i1 + 1)"
      using True by (subst main_loop.simps) (simp add: Let_def i1_def dest1_def dest2_def)
    have "i1 \<le> psize - 1"
      unfolding i1_def using True "1.prems"(3) by (intro scan_loop_before_cr) simp_all
    then have i1: "i1 < psize"
      using "1.prems"(2) by simp
    then have "ptr_at source i1 = CR"
      unfolding i1_def by (rule scan_loop_cr)
    then have look: "ptr_at source (i1 + 1) = LF"
      using "1.prems"(1) i1 by simp
    have "CR \<notin> set (take (i1 - i) (drop i (ptr source)))"
    proof (rule chunk_no_cr)
      show "i1 \<le> length (ptr source)"
        using i1 "1.prems"(4) by simp
      show "\<forall>j. i \<le> j \<and> j < i1 \<longrightarrow> ptr_at source j \<noteq> CR"
        unfolding i1_def using scan_loop_skips by blast
    qed
    then have "CR \<notin> set (ptr dest1)"
      using "1.prems"(5) by (simp add: dest1_def git_buf_put_def)
    then have "CR \<notin> set (ptr dest2)"
      using look by (simp add: dest2_def)
    then have "CR \<notin> set (ptr (main_loop source psize dest2 (i1 + 1)))"
      using "1.IH" [OF True refl i1_def dest1_def dest2_def "1.prems"(1-4)] by simp
    with step show ?thesis
      by simp
  qed
qed

text \<open>A transformed output is never empty.\<close>

lemma drop_crlf_output_nonempty:
  assumes "drop_crlf dest source = Some (0, dest')"
  shows "ptr dest' \<noteq> []"
proof -
  have ne: "buf_size source \<noteq> 0"
    using assms by (auto simp: drop_crlf_def split: if_splits)
  then have "dest' = git_buf_putc
      (main_loop source (buf_size source - 1) dest (scan_loop source (buf_size source - 1) 0))
      (ptr_at source (buf_size source - 1))"
    using assms by (auto simp: drop_crlf_def Let_def split: if_splits)
  then show ?thesis
    by (simp add: git_buf_putc_def)
qed

text \<open>
  The bytes before the first CR are lost on every application: \<open>CR LF CR B\<close> gives
  \<open>LF CR B\<close>, and that gives \<open>CR B\<close>.
\<close>

lemma drop_crlf_twice_after_lost_prefix:
  "drop_crlf \<lparr>ptr = [], ptr_at_size = t\<rparr> \<lparr>ptr = [CR, LF, CR, 66], ptr_at_size = u\<rparr>
     = Some (0, \<lparr>ptr = [LF, CR, 66], ptr_at_size = t\<rparr>) \<and>
   drop_crlf \<lparr>ptr = [], ptr_at_size = t\<rparr> \<lparr>ptr = [LF, CR, 66], ptr_at_size = t\<rparr>
     = Some (0, \<lparr>ptr = [CR, 66], ptr_at_size = t\<rparr>)"
  by (simp add: drop_crlf_eval)

section \<open>Policy\<close>

text \<open>
  C9. Action finalization (\<open>crlf_input_action\<close>), for every action and eol: a
  Binary action gives Binary whatever the eol; otherwise eol Lf gives Input;
  otherwise eol Crlf gives Crlf; otherwise the action is returned unchanged.
\<close>

theorem crlf_input_action_cases:
  "(crlf_action ca = GIT_CRLF_BINARY \<longrightarrow> crlf_input_action ca = GIT_CRLF_BINARY) \<and>
   (crlf_action ca \<noteq> GIT_CRLF_BINARY \<and> eol ca = GIT_EOL_LF \<longrightarrow>
      crlf_input_action ca = GIT_CRLF_INPUT) \<and>
   (crlf_action ca \<noteq> GIT_CRLF_BINARY \<and> eol ca = GIT_EOL_CRLF \<longrightarrow>
      crlf_input_action ca = GIT_CRLF_CRLF) \<and>
   (crlf_action ca \<noteq> GIT_CRLF_BINARY \<and> eol ca \<noteq> GIT_EOL_LF \<and> eol ca \<noteq> GIT_EOL_CRLF \<longrightarrow>
      crlf_input_action ca = crlf_action ca)"
  by (simp add: crlf_input_action_def)

theorem crlf_input_action_cases_witness:
  "crlf_input_action \<lparr>crlf_action = GIT_CRLF_BINARY, eol = GIT_EOL_LF\<rparr> = GIT_CRLF_BINARY \<and>
   crlf_input_action \<lparr>crlf_action = GIT_CRLF_TEXT, eol = GIT_EOL_LF\<rparr> = GIT_CRLF_INPUT \<and>
   crlf_input_action \<lparr>crlf_action = GIT_CRLF_GUESS, eol = GIT_EOL_CRLF\<rparr> = GIT_CRLF_CRLF \<and>
   crlf_input_action \<lparr>crlf_action = GIT_CRLF_AUTO, eol = GIT_EOL_UNSET\<rparr> = GIT_CRLF_AUTO"
  using crlf_input_action_cases [of "\<lparr>crlf_action = GIT_CRLF_BINARY, eol = GIT_EOL_LF\<rparr>"]
    crlf_input_action_cases [of "\<lparr>crlf_action = GIT_CRLF_TEXT, eol = GIT_EOL_LF\<rparr>"]
    crlf_input_action_cases [of "\<lparr>crlf_action = GIT_CRLF_GUESS, eol = GIT_EOL_CRLF\<rparr>"]
    crlf_input_action_cases [of "\<lparr>crlf_action = GIT_CRLF_AUTO, eol = GIT_EOL_UNSET\<rparr>"]
  by simp

text \<open>
  C8. In \<open>crlf_load_attributes\<close> the \<open>text\<close> attribute takes precedence over the
  \<open>crlf\<close> attribute: the action is \<open>check_crlf\<close> of the \<open>text\<close> value, and only when
  that is Guess is it \<open>check_crlf\<close> of the \<open>crlf\<close> value. The witness has the two
  cases of the spec: text true with crlf "input" gives Text, text unset with crlf
  "input" gives Input.
\<close>

theorem crlf_load_attributes_text_first:
  "fst (crlf_load_attributes ca (GIT_SUCCESS [crlf_value, eol_value, text_value])) = 0 \<and>
   (check_crlf text_value \<noteq> GIT_CRLF_GUESS \<longrightarrow>
      crlf_action (snd (crlf_load_attributes ca (GIT_SUCCESS [crlf_value, eol_value, text_value])))
        = check_crlf text_value) \<and>
   (check_crlf text_value = GIT_CRLF_GUESS \<longrightarrow>
      crlf_action (snd (crlf_load_attributes ca (GIT_SUCCESS [crlf_value, eol_value, text_value])))
        = check_crlf crlf_value)"
  by (simp add: crlf_load_attributes_def Let_def)

theorem crlf_load_attributes_text_first_witness:
  "crlf_action (snd (crlf_load_attributes \<lparr>crlf_action = GIT_CRLF_BINARY, eol = GIT_EOL_LF\<rparr>
      (GIT_SUCCESS [Str ''input'', NULL, git_attr__true]))) = GIT_CRLF_TEXT \<and>
   crlf_action (snd (crlf_load_attributes \<lparr>crlf_action = GIT_CRLF_BINARY, eol = GIT_EOL_LF\<rparr>
      (GIT_SUCCESS [Str ''input'', NULL, NULL]))) = GIT_CRLF_INPUT"
  using crlf_load_attributes_text_first [where text_value = git_attr__true and crlf_value = "Str ''input''" and eol_value = NULL
      and ca = "\<lparr>crlf_action = GIT_CRLF_BINARY, eol = GIT_EOL_LF\<rparr>"]
    crlf_load_attributes_text_first [where text_value = NULL and crlf_value = "Str ''input''" and eol_value = NULL
      and ca = "\<lparr>crlf_action = GIT_CRLF_BINARY, eol = GIT_EOL_LF\<rparr>"]
  by simp

section \<open>The transform\<close>

text \<open>
  C6. For every buffer of length at least 1 with no CR at any index in
  \<open>[0, len - 1)\<close>, in particular every buffer of length 1, \<open>drop_crlf\<close> declines:
  it returns -1 and the destination is as it was, nothing allocated or copied.
\<close>

theorem drop_crlf_clean_declines:
  assumes "1 \<le> buf_size b"
    and "\<forall>i. i < buf_size b - 1 \<longrightarrow> ptr b ! i \<noteq> CR"
  shows "drop_crlf dest b = Some (- 1, dest)"
proof -
  have "scan_loop b (buf_size b - 1) 0 = buf_size b - 1"
  proof (rule scan_loop_none)
    show "0 \<le> buf_size b - 1" by simp
    show "\<forall>j. 0 \<le> j \<and> j < buf_size b - 1 \<longrightarrow> ptr_at b j \<noteq> CR"
      using assms(2) by (auto simp: ptr_at_def buf_size_def)
  qed
  then show ?thesis
    using assms(1) by (simp add: drop_crlf_def Let_def)
qed

theorem drop_crlf_clean_declines_witness:
  "1 \<le> buf_size \<lparr>ptr = [65, 66, CR], ptr_at_size = 0\<rparr> \<and>
   drop_crlf \<lparr>ptr = [], ptr_at_size = 0\<rparr> \<lparr>ptr = [65, 66, CR], ptr_at_size = 0\<rparr>
     = Some (- 1, \<lparr>ptr = [], ptr_at_size = 0\<rparr>)"
proof -
  have h1: "1 \<le> buf_size \<lparr>ptr = [65, 66, CR], ptr_at_size = 0\<rparr>"
    by (simp add: buf_size_def)
  have h2: "\<forall>i. i < buf_size \<lparr>ptr = [65, 66, CR], ptr_at_size = 0\<rparr> - 1 \<longrightarrow>
      ptr \<lparr>ptr = [65, 66, CR], ptr_at_size = 0\<rparr> ! i \<noteq> CR"
  proof (intro allI impI)
    fix i
    assume "i < buf_size \<lparr>ptr = [65, 66, CR], ptr_at_size = 0\<rparr> - 1"
    then have "i = 0 \<or> i = 1"
      by (auto simp: buf_size_def)
    then show "ptr \<lparr>ptr = [65, 66, CR], ptr_at_size = 0\<rparr> ! i \<noteq> CR"
      by auto
  qed
  show ?thesis
    using h1 drop_crlf_clean_declines [OF h1 h2, of "\<lparr>ptr = [], ptr_at_size = 0\<rparr>"] by blast
qed

text \<open>
  C7. Whenever \<open>drop_crlf\<close> returns a transformed buffer (code 0), the last byte it
  appended to the destination is the last byte of the source, whatever its value;
  the witness has a CR as the final byte.
\<close>

theorem drop_crlf_last_byte:
  assumes "drop_crlf dest source = Some (0, dest')"
  shows "ptr source \<noteq> [] \<and> (\<exists>out. ptr dest' = ptr dest @ out @ [last (ptr source)])"
proof -
  define psize where "psize = buf_size source - 1"
  have ne: "buf_size source \<noteq> 0"
    using assms by (auto simp: drop_crlf_def split: if_splits)
  then have nonempty: "ptr source \<noteq> []"
    by (simp add: buf_size_def)
  have dest': "dest' = git_buf_putc (main_loop source psize dest (scan_loop source psize 0))
      (ptr_at source psize)"
    using assms ne by (auto simp: drop_crlf_def Let_def psize_def split: if_splits)
  have "ptr_at source psize = last (ptr source)"
    using nonempty by (simp add: ptr_at_def psize_def buf_size_def last_conv_nth)
  moreover obtain out where
    "main_loop source psize dest (scan_loop source psize 0) = dest\<lparr>ptr := ptr dest @ out\<rparr>"
    using main_loop_appends by blast
  ultimately have "ptr dest' = ptr dest @ out @ [last (ptr source)]"
    by (simp add: dest' git_buf_putc_def)
  with nonempty show ?thesis by blast
qed

theorem drop_crlf_last_byte_witness:
  "drop_crlf \<lparr>ptr = [], ptr_at_size = 0\<rparr> \<lparr>ptr = [CR, CR], ptr_at_size = 0\<rparr>
     = Some (0, \<lparr>ptr = [CR, CR], ptr_at_size = 0\<rparr>) \<and>
   (\<exists>out. ptr \<lparr>ptr = [CR, CR], ptr_at_size = 0 :: byte\<rparr> = [] @ out @ [last [CR, CR]])"
proof -
  have h: "drop_crlf \<lparr>ptr = [], ptr_at_size = 0\<rparr> \<lparr>ptr = [CR, CR], ptr_at_size = 0\<rparr>
     = Some (0, \<lparr>ptr = [CR, CR], ptr_at_size = 0\<rparr>)"
    by (simp add: drop_crlf_eval)
  show ?thesis
    using h drop_crlf_last_byte [OF h] by simp
qed

text \<open>
  C10. For every source whose first CR is at an index \<open>k\<close> with
  \<open>0 < k < len - 1\<close>, the main loop starts at \<open>k\<close>, where the initial scan stopped,
  and the bytes \<open>source[0..k)\<close> are never copied: the result is the one for the
  source without its first \<open>k\<close> bytes.
\<close>

theorem drop_crlf_omits_prefix:
  assumes "0 < k" and "k < buf_size source - 1"
    and "ptr source ! k = CR"
    and "\<forall>j. j < k \<longrightarrow> ptr source ! j \<noteq> CR"
  shows "drop_crlf dest source =
      Some (0, git_buf_putc (main_loop source (buf_size source - 1) dest k)
                 (ptr_at source (buf_size source - 1))) \<and>
    drop_crlf dest source = drop_crlf dest (source\<lparr>ptr := drop k (ptr source)\<rparr>)"
proof -
  define psize where "psize = buf_size source - 1"
  let ?s = "source\<lparr>ptr := drop k (ptr source)\<rparr>"
  have k: "k < psize" and size: "buf_size source = psize + 1" and kle: "k \<le> length (ptr source)"
    using assms(2) by (simp_all add: psize_def buf_size_def)
  have at_k: "ptr_at source k = CR"
    using assms(3) kle k size by (simp add: ptr_at_def buf_size_def)
  have before: "\<forall>j. 0 \<le> j \<and> j < k \<longrightarrow> ptr_at source j \<noteq> CR"
    using assms(4) kle by (auto simp: ptr_at_def)
  have first: "scan_loop source psize 0 = k"
    using scan_loop_first [OF _ k at_k before] by simp
  have whole: "drop_crlf dest source =
      Some (0, git_buf_putc (main_loop source psize dest k) (ptr_at source psize))"
    using k size by (simp add: drop_crlf_def Let_def first psize_def [symmetric])
  have size': "buf_size ?s = psize - k + 1"
    using k size by (simp add: buf_size_def)
  have "ptr_at ?s 0 = CR"
    using ptr_at_drop [OF kle, of 0] at_k by simp
  then have first': "scan_loop ?s (psize - k) 0 = 0"
    by (subst scan_loop.simps) simp
  have loop': "main_loop ?s (psize - k) dest 0 = main_loop source psize dest k"
    using main_loop_drop [OF kle, of "psize - k" dest 0] k by simp
  have last': "ptr_at ?s (psize - k) = ptr_at source psize"
    using ptr_at_drop [OF kle, of "psize - k"] k by simp
  have "drop_crlf dest ?s =
      Some (0, git_buf_putc (main_loop source psize dest k) (ptr_at source psize))"
    using k by (simp add: drop_crlf_def Let_def size' first' loop' last')
  with whole show ?thesis
    by (simp add: psize_def)
qed

theorem drop_crlf_omits_prefix_witness:
  "drop_crlf \<lparr>ptr = [], ptr_at_size = 0\<rparr> \<lparr>ptr = [65, 66, CR, LF, 67, CR, LF], ptr_at_size = 0\<rparr>
     = Some (0, \<lparr>ptr = [LF, 67, LF], ptr_at_size = 0\<rparr>) \<and>
   drop_crlf \<lparr>ptr = [], ptr_at_size = 0\<rparr> \<lparr>ptr = [65, 66, CR, LF, 67, CR, LF], ptr_at_size = 0\<rparr>
     = drop_crlf \<lparr>ptr = [], ptr_at_size = 0\<rparr> \<lparr>ptr = [CR, LF, 67, CR, LF], ptr_at_size = 0\<rparr>"
proof -
  let ?src = "\<lparr>ptr = [65, 66, CR, LF, 67, CR, LF], ptr_at_size = 0 :: byte\<rparr>"
  have h1: "0 < (2::nat)" by simp
  have h2: "2 < buf_size ?src - 1" by (simp add: buf_size_def)
  have h3: "ptr ?src ! 2 = CR" by simp
  have h4: "\<forall>j. j < 2 \<longrightarrow> ptr ?src ! j \<noteq> CR"
  proof (intro allI impI)
    fix j :: nat
    assume "j < 2"
    then have "j = 0 \<or> j = 1" by auto
    then show "ptr ?src ! j \<noteq> CR" by auto
  qed
  show ?thesis
    using drop_crlf_omits_prefix [OF h1 h2 h3 h4, of "\<lparr>ptr = [], ptr_at_size = 0\<rparr>"]
    by (simp add: drop_crlf_eval)
qed

text \<open>
  C1. The claim: whenever the transform is performed, the output is the input
  without the CR bytes that are followed by LF before the last byte, every other
  byte kept in order, also those before the first CR. On the four bytes
  \<open>h i CR LF\<close> the code returns the single byte LF: the two leading bytes are
  lost, where the claim has \<open>h i LF\<close>.
\<close>

theorem drop_crlf_loses_leading_bytes:
  "drop_crlf \<lparr>ptr = [], ptr_at_size = t\<rparr> \<lparr>ptr = [104, 105, CR, LF], ptr_at_size = u\<rparr>
   = Some (0, \<lparr>ptr = [LF], ptr_at_size = t\<rparr>) \<and> strip_crlf_spec [104, 105, CR, LF] = [104, 105, LF]"
  by (simp add: drop_crlf_eval)

text \<open>
  C2. The claim: on the three bytes \<open>A CR LF\<close> the transform does not decline and
  gives the two bytes \<open>A LF\<close>. The code does not decline and gives the single byte
  LF, whatever byte follows the content of either buffer.
\<close>

theorem drop_crlf_A_CR_LF:
  "drop_crlf \<lparr>ptr = [], ptr_at_size = t\<rparr> \<lparr>ptr = [65, CR, LF], ptr_at_size = u\<rparr>
   = Some (0, \<lparr>ptr = [LF], ptr_at_size = t\<rparr>)"
  by (simp add: drop_crlf_eval)

text \<open>
  C3, as stated, has a second application to a transformed output decline or
  return that output unchanged, the output holding no CR LF pair. A lone CR is
  kept, so a CR before a CR LF pair leaves a new pair: \<open>CR CR LF\<close> gives \<open>CR LF\<close>,
  and that gives \<open>LF\<close>, in the code and in the transform the spec describes.
\<close>

theorem drop_crlf_twice_lone_cr:
  "drop_crlf \<lparr>ptr = [], ptr_at_size = 0\<rparr> \<lparr>ptr = [CR, CR, LF], ptr_at_size = 0\<rparr>
     = Some (0, \<lparr>ptr = [CR, LF], ptr_at_size = 0\<rparr>) \<and>
   drop_crlf \<lparr>ptr = [], ptr_at_size = 0\<rparr> \<lparr>ptr = [CR, LF], ptr_at_size = 0\<rparr>
     = Some (0, \<lparr>ptr = [LF], ptr_at_size = 0\<rparr>) \<and>
   strip_crlf_spec [CR, CR, LF] = [CR, LF] \<and> strip_crlf_spec [CR, LF] = [LF]"
  by (simp add: drop_crlf_eval)

text \<open>
  C3, amended. Whenever \<open>drop_crlf\<close> returns a transformed output that has no CR
  before its last byte, a second application declines, and the output stays as it
  is. That is the case for every source in which each CR before the last byte is
  followed by LF and whose last two bytes are CR LF, with a destination free of
  CR: the transformed output has no CR at all.
\<close>

theorem drop_crlf_twice_declines:
  "(drop_crlf dest source = Some (0, dest') \<and>
    (\<forall>i. i < buf_size dest' - 1 \<longrightarrow> ptr dest' ! i \<noteq> CR) \<longrightarrow>
      drop_crlf dest2 dest' = Some (- 1, dest2)) \<and>
   ((\<forall>i. i < buf_size source - 1 \<and> ptr source ! i = CR \<longrightarrow> ptr source ! (i + 1) = LF) \<and>
    2 \<le> buf_size source \<and> ptr source ! (buf_size source - 2) = CR \<and>
    CR \<notin> set (ptr dest) \<longrightarrow>
      (\<exists>d. drop_crlf dest source = Some (0, d) \<and> CR \<notin> set (ptr d)))"
proof (intro conjI impI)
  assume a: "drop_crlf dest source = Some (0, dest') \<and>
    (\<forall>i. i < buf_size dest' - 1 \<longrightarrow> ptr dest' ! i \<noteq> CR)"
  then have ne: "buf_size dest' \<noteq> 0"
    using drop_crlf_output_nonempty [of dest source dest'] by (simp add: buf_size_def)
  have "scan_loop dest' (buf_size dest' - 1) 0 = buf_size dest' - 1"
  proof (rule scan_loop_none)
    show "0 \<le> buf_size dest' - 1" by simp
    show "\<forall>j. 0 \<le> j \<and> j < buf_size dest' - 1 \<longrightarrow> ptr_at dest' j \<noteq> CR"
      using a by (auto simp: ptr_at_def buf_size_def)
  qed
  then show "drop_crlf dest2 dest' = Some (- 1, dest2)"
    using ne by (simp add: drop_crlf_def Let_def)
next
  assume b: "(\<forall>i. i < buf_size source - 1 \<and> ptr source ! i = CR \<longrightarrow> ptr source ! (i + 1) = LF) \<and>
    2 \<le> buf_size source \<and> ptr source ! (buf_size source - 2) = CR \<and> CR \<notin> set (ptr dest)"
  define psize where "psize = buf_size source - 1"
  from b have "2 \<le> length (ptr source)"
    by (simp add: buf_size_def)
  then have len: "length (ptr source) = psize + 1" and pos: "0 < psize"
    by (simp_all add: psize_def buf_size_def)
  have pairs: "\<forall>j. j < psize \<and> ptr_at source j = CR \<longrightarrow> ptr_at source (j + 1) = LF"
    using b len by (auto simp: ptr_at_def psize_def)
  have two: "psize - 1 = buf_size source - 2"
    by (simp add: psize_def)
  have "ptr source ! (psize - 1) = CR"
    using b by (simp only: two)
  moreover have "psize - 1 < length (ptr source)"
    using len by simp
  ultimately have before_last: "ptr_at source (psize - 1) = CR"
    by (simp only: ptr_at_def if_True)
  have "scan_loop source psize 0 \<le> psize - 1"
    using before_last by (intro scan_loop_before_cr) simp_all
  then have first: "scan_loop source psize 0 \<noteq> psize"
    using pos by simp
  have "psize - 1 < psize \<and> ptr_at source (psize - 1) = CR"
    using before_last pos by simp
  then have "ptr_at source (psize - 1 + 1) = LF"
    using pairs by blast
  then have last: "ptr_at source psize = LF"
    using pos by simp
  have loop: "CR \<notin> set (ptr (main_loop source psize dest (scan_loop source psize 0)))"
    using pairs pos before_last len b by (intro main_loop_no_cr) simp_all
  have "drop_crlf dest source = Some (0, git_buf_putc
      (main_loop source psize dest (scan_loop source psize 0)) LF)"
    using first len by (simp add: drop_crlf_def Let_def buf_size_def psize_def [symmetric] last)
  moreover have "CR \<notin> set (ptr (git_buf_putc
      (main_loop source psize dest (scan_loop source psize 0)) LF))"
    using loop by (simp add: git_buf_putc_def)
  ultimately show "\<exists>d. drop_crlf dest source = Some (0, d) \<and> CR \<notin> set (ptr d)"
    by blast
qed

theorem drop_crlf_twice_declines_witness:
  "drop_crlf \<lparr>ptr = [], ptr_at_size = 0\<rparr> \<lparr>ptr = [CR, LF, 66, CR, LF], ptr_at_size = 0\<rparr>
     = Some (0, \<lparr>ptr = [LF, 66, LF], ptr_at_size = 0\<rparr>) \<and>
   drop_crlf \<lparr>ptr = [], ptr_at_size = 0\<rparr> \<lparr>ptr = [LF, 66, LF], ptr_at_size = 0\<rparr>
     = Some (- 1, \<lparr>ptr = [], ptr_at_size = 0\<rparr>) \<and>
   (\<exists>d. drop_crlf \<lparr>ptr = [], ptr_at_size = 0\<rparr>
          \<lparr>ptr = [CR, LF, 66, CR, LF], ptr_at_size = 0\<rparr> = Some (0, d) \<and>
        CR \<notin> set (ptr d))"
proof -
  let ?d = "\<lparr>ptr = [], ptr_at_size = 0 :: byte\<rparr>"
  let ?s = "\<lparr>ptr = [CR, LF, 66, CR, LF], ptr_at_size = 0 :: byte\<rparr>"
  let ?o = "\<lparr>ptr = [LF, 66, LF], ptr_at_size = 0 :: byte\<rparr>"
  have run: "drop_crlf ?d ?s = Some (0, ?o)"
    by (simp add: drop_crlf_eval)
  have clean: "\<forall>i. i < buf_size ?o - 1 \<longrightarrow> ptr ?o ! i \<noteq> CR"
  proof (intro allI impI)
    fix i
    assume "i < buf_size ?o - 1"
    then have "i = 0 \<or> i = 1"
      by (auto simp: buf_size_def)
    then show "ptr ?o ! i \<noteq> CR"
      by auto
  qed
  have pairs: "\<forall>i. i < buf_size ?s - 1 \<and> ptr ?s ! i = CR \<longrightarrow> ptr ?s ! (i + 1) = LF"
  proof (intro allI impI)
    fix i
    assume "i < buf_size ?s - 1 \<and> ptr ?s ! i = CR"
    then have "i < 4" and at: "ptr ?s ! i = CR"
      by (simp_all add: buf_size_def)
    then have "i = 0 \<or> i = 1 \<or> i = 2 \<or> i = 3"
      by arith
    with at show "ptr ?s ! (i + 1) = LF"
      by auto
  qed
  have rest: "2 \<le> buf_size ?s \<and> ptr ?s ! (buf_size ?s - 2) = CR \<and> CR \<notin> set (ptr ?d)"
    by (simp add: buf_size_def)
  show ?thesis
    using drop_crlf_twice_declines [of ?d ?s ?o ?d] run clean pairs rest by blast
qed

section \<open>Applicability\<close>

text \<open>
  C4. \<open>crlf_apply_to_odb\<close> is only installed in a filter by
  \<open>git_filter_add__crlf_to_odb\<close>, which returns before that when the action is Binary
  (lines 223-224): the actions that reach it are the other five. For each of them
  and a non-empty source, it runs the transform (returns what \<open>drop_crlf\<close> returns)
  if and only if the action is Text, Input or Crlf, or the action is Auto or Guess
  and the statistics have \<open>cr = crlf\<close>, not binary and \<open>cr > 0\<close>; in every other
  Auto or Guess case it declines with -1 and leaves the destination as it was.
  Where \<open>drop_crlf\<close> itself declines the two results are the same; where it does
  not, the equivalence is literal.
\<close>

theorem crlf_apply_to_odb_decision:
  assumes "buf_size source \<noteq> 0"
    and "crlf_action (attrs self) \<noteq> GIT_CRLF_BINARY"
  shows
    "(apply_condition_spec (crlf_action (attrs self)) (gather source) (is_binary (gather source)) \<longrightarrow>
        crlf_apply_to_odb gather is_binary self dest source = drop_crlf dest source) \<and>
     (\<not> apply_condition_spec (crlf_action (attrs self)) (gather source) (is_binary (gather source)) \<longrightarrow>
        crlf_apply_to_odb gather is_binary self dest source = Some (- 1, dest)) \<and>
     (drop_crlf dest source \<noteq> Some (- 1, dest) \<longrightarrow>
        (crlf_apply_to_odb gather is_binary self dest source = drop_crlf dest source \<longleftrightarrow>
         apply_condition_spec (crlf_action (attrs self)) (gather source) (is_binary (gather source))))"
proof (cases "crlf_action (attrs self)")
  case GIT_CRLF_BINARY
  with assms(2) show ?thesis by simp
qed (use assms(1) in \<open>auto simp: crlf_apply_to_odb_def apply_condition_spec_def Let_def\<close>)

theorem crlf_apply_to_odb_decision_witness:
  "crlf_apply_to_odb (\<lambda>b. \<lparr>cr = 1, crlf = 1\<rparr>) (\<lambda>s. False)
     \<lparr>attrs = \<lparr>crlf_action = GIT_CRLF_TEXT, eol = GIT_EOL_UNSET\<rparr>\<rparr>
     \<lparr>ptr = [], ptr_at_size = 0\<rparr> \<lparr>ptr = [CR, LF, CR, LF], ptr_at_size = 0\<rparr>
     = Some (0, \<lparr>ptr = [LF, LF], ptr_at_size = 0\<rparr>) \<and>
   crlf_apply_to_odb (\<lambda>b. \<lparr>cr = 1, crlf = 1\<rparr>) (\<lambda>s. False)
     \<lparr>attrs = \<lparr>crlf_action = GIT_CRLF_AUTO, eol = GIT_EOL_UNSET\<rparr>\<rparr>
     \<lparr>ptr = [], ptr_at_size = 0\<rparr> \<lparr>ptr = [CR, LF, CR, LF], ptr_at_size = 0\<rparr>
     = Some (0, \<lparr>ptr = [LF, LF], ptr_at_size = 0\<rparr>) \<and>
   crlf_apply_to_odb (\<lambda>b. \<lparr>cr = 3, crlf = 1\<rparr>) (\<lambda>s. False)
     \<lparr>attrs = \<lparr>crlf_action = GIT_CRLF_AUTO, eol = GIT_EOL_UNSET\<rparr>\<rparr>
     \<lparr>ptr = [], ptr_at_size = 0\<rparr> \<lparr>ptr = [CR, LF, CR, CR, 66], ptr_at_size = 0\<rparr>
     = Some (- 1, \<lparr>ptr = [], ptr_at_size = 0\<rparr>)"
proof -
  let ?d = "\<lparr>ptr = [], ptr_at_size = 0 :: byte\<rparr>"
  let ?s1 = "\<lparr>ptr = [CR, LF, CR, LF], ptr_at_size = 0 :: byte\<rparr>"
  let ?s2 = "\<lparr>ptr = [CR, LF, CR, CR, 66], ptr_at_size = 0 :: byte\<rparr>"
  have n1: "buf_size ?s1 \<noteq> 0" and n2: "buf_size ?s2 \<noteq> 0"
    by (simp_all add: buf_size_def)
  have run: "drop_crlf ?d ?s1 = Some (0, \<lparr>ptr = [LF, LF], ptr_at_size = 0\<rparr>)"
    by (simp add: drop_crlf_eval)
  show ?thesis
    using
      crlf_apply_to_odb_decision [OF n1, of "\<lparr>attrs = \<lparr>crlf_action = GIT_CRLF_TEXT, eol = GIT_EOL_UNSET\<rparr>\<rparr>"
        "\<lambda>b. \<lparr>cr = 1, crlf = 1\<rparr>" "\<lambda>s. False" ?d]
      crlf_apply_to_odb_decision [OF n1, of "\<lparr>attrs = \<lparr>crlf_action = GIT_CRLF_AUTO, eol = GIT_EOL_UNSET\<rparr>\<rparr>"
        "\<lambda>b. \<lparr>cr = 1, crlf = 1\<rparr>" "\<lambda>s. False" ?d]
      crlf_apply_to_odb_decision [OF n2, of "\<lparr>attrs = \<lparr>crlf_action = GIT_CRLF_AUTO, eol = GIT_EOL_UNSET\<rparr>\<rparr>"
        "\<lambda>b. \<lparr>cr = 3, crlf = 1\<rparr>" "\<lambda>s. False" ?d]
    by (simp add: run apply_condition_spec_def)
qed

text \<open>
  C5, as stated, has the empty source give an outcome told apart from a successful
  transform. The code returns 0 for the empty source, the code it also returns
  for a performed transform.
\<close>

theorem crlf_apply_to_odb_empty_same_code:
  "map_option fst (crlf_apply_to_odb (\<lambda>b. \<lparr>cr = 1, crlf = 1\<rparr>) (\<lambda>s. False)
     \<lparr>attrs = \<lparr>crlf_action = GIT_CRLF_TEXT, eol = GIT_EOL_UNSET\<rparr>\<rparr>
     \<lparr>ptr = [], ptr_at_size = 0\<rparr> \<lparr>ptr = [], ptr_at_size = 0\<rparr>)
   = map_option fst (crlf_apply_to_odb (\<lambda>b. \<lparr>cr = 1, crlf = 1\<rparr>) (\<lambda>s. False)
     \<lparr>attrs = \<lparr>crlf_action = GIT_CRLF_TEXT, eol = GIT_EOL_UNSET\<rparr>\<rparr>
     \<lparr>ptr = [], ptr_at_size = 0\<rparr> \<lparr>ptr = [CR, LF, CR, LF], ptr_at_size = 0\<rparr>) \<and>
   crlf_apply_to_odb (\<lambda>b. \<lparr>cr = 1, crlf = 1\<rparr>) (\<lambda>s. False)
     \<lparr>attrs = \<lparr>crlf_action = GIT_CRLF_TEXT, eol = GIT_EOL_UNSET\<rparr>\<rparr>
     \<lparr>ptr = [], ptr_at_size = 0\<rparr> \<lparr>ptr = [CR, LF, CR, LF], ptr_at_size = 0\<rparr>
   = Some (0, \<lparr>ptr = [LF, LF], ptr_at_size = 0\<rparr>)"
  by (simp add: crlf_apply_to_odb_def drop_crlf_eval)

text \<open>
  C5, amended. For every action, \<open>crlf_apply_to_odb\<close> on an empty source returns 0,
  not the declining -1, and leaves the destination as it was; neither the
  statistics nor \<open>drop_crlf\<close> are run.
\<close>

theorem crlf_apply_to_odb_empty:
  assumes "buf_size source = 0"
  shows "crlf_apply_to_odb gather is_binary self dest source = Some (0, dest)"
  using assms by (simp add: crlf_apply_to_odb_def)

theorem crlf_apply_to_odb_empty_witness:
  "buf_size \<lparr>ptr = [], ptr_at_size = 0\<rparr> = 0 \<and>
   crlf_apply_to_odb (\<lambda>b. \<lparr>cr = 0, crlf = 0\<rparr>) (\<lambda>s. False)
     \<lparr>attrs = \<lparr>crlf_action = GIT_CRLF_AUTO, eol = GIT_EOL_UNSET\<rparr>\<rparr>
     \<lparr>ptr = [], ptr_at_size = 0\<rparr> \<lparr>ptr = [], ptr_at_size = 0\<rparr>
   = Some (0, \<lparr>ptr = [], ptr_at_size = 0\<rparr>)"
proof -
  have h: "buf_size \<lparr>ptr = [], ptr_at_size = 0\<rparr> = 0"
    by (simp add: buf_size_def)
  show ?thesis
    using h crlf_apply_to_odb_empty [OF h] by simp
qed

end
